theory Spec2Isabelle
  imports Main "HOL-Library.Word" "HOL-Library.Sublist"
begin

section \<open>The interning pool of Internify\<close>

text \<open>
  The repository holds two drafts of \<^verbatim>\<open>internify.hpp\<close>.

  \<^item> The draft in \<^verbatim>\<open>src/internify.hpp\<close> hands out \<^verbatim>\<open>std::shared_ptr<T>\<close> and has the public
    operations \<^verbatim>\<open>internify\<close>, \<^verbatim>\<open>release\<close>, \<^verbatim>\<open>find\<close>, \<^verbatim>\<open>erase\<close> and \<^verbatim>\<open>size\<close>.
  \<^item> The draft in \<^verbatim>\<open>src/unnamed/part_001\<close> hands out the move-only \<^verbatim>\<open>InternedPtr\<close>, whose
    disposal calls the (now private) \<^verbatim>\<open>release\<close>; its \<^verbatim>\<open>find\<close> counts a reference.

  Both keep \<^verbatim>\<open>std::unordered_map<HashedValue, ...InterningNode...> m_interningMap\<close>: the table
  is keyed by the \<^emph>\<open>hash\<close> of the value, and no operation compares values.

  \<^verbatim>\<open>hashValue\<close>, \<^verbatim>\<open>findExisting\<close> and \<^verbatim>\<open>insertNew\<close> are the same code in both drafts, up to
  the pointer type they return, and are modelled once. Where the drafts differ, the
  operation of the second draft carries the suffix \<open>_ip\<close>. The \<^verbatim>\<open>find\<close> of the first draft is
  \<open>find_shared\<close> and \<^verbatim>\<open>size\<close> is \<open>size_pool\<close>, their own names being taken by the list library.

  The model is sequential: every operation takes its lock for its whole body, so an operation
  is a function from the pool state to the pool state and the value it returns.
  \<^verbatim>\<open>internify\<close> is the one operation made of two locked sections (\<^verbatim>\<open>findExisting\<close>, then
  \<^verbatim>\<open>insertNew\<close>); the model runs them back to back.
\<close>

subsection \<open>Data\<close>

text \<open>
  Objects of type \<^verbatim>\<open>T\<close> live at addresses. A pointer (\<^verbatim>\<open>std::shared_ptr<T>\<close>, \<^verbatim>\<open>const T *\<close>) is
  an \<open>addr option\<close>, \<open>None\<close> being \<^verbatim>\<open>nullptr\<close>. The allocator hands out \<open>next_addr\<close> and
  counts up, so a new object never has the address of an older one. In the first draft the
  objects are owned by shared pointers, which the callers hold too: the model keeps every
  object once it is allocated. In the second draft an object goes with its entry.
\<close>

type_synonym addr = nat

text \<open>
  \<^verbatim>\<open>struct InterningNode { const std::shared_ptr<T> value; std::atomic<int> refCount; }\<close>
  (in the second draft \<^verbatim>\<open>const T value\<close>, the object lying inside the node). \<open>node_value\<close>
  is the address of the stored \<^verbatim>\<open>T\<close>. The atomic \<^verbatim>\<open>int\<close> is a 32-bit word, read as two's
  complement by \<open>sint\<close>; its \<^verbatim>\<open>fetch_add\<close> and \<^verbatim>\<open>fetch_sub\<close> wrap around.
\<close>

record InterningNode =
  node_value :: addr
  refCount :: "32 word"

record ('k, 'a) Internify =
  m_interningMap :: "'k \<rightharpoonup> InterningNode"
  heap :: "addr \<rightharpoonup> 'a"
  next_addr :: addr

text \<open>\<^verbatim>\<open>Internify() = default\<close>: the empty table.\<close>

definition Internify_init :: "('k, 'a) Internify" where
  "Internify_init = \<lparr>m_interningMap = Map.empty, heap = Map.empty, next_addr = 0\<rparr>"

subsection \<open>Operations the two drafts share\<close>

text \<open>\<^verbatim>\<open>hashValue\<close> applies the template parameter \<^verbatim>\<open>HashFunc\<close>, here the argument \<open>hf\<close>.\<close>

definition hashValue :: "('a \<Rightarrow> 'k) \<Rightarrow> 'a \<Rightarrow> 'k" where
  "hashValue hf v = hf v"

text \<open>
  \<^verbatim>\<open>findExisting\<close>: look the hash up; on a hit add one to the count and return the stored
  pointer, otherwise return \<^verbatim>\<open>nullptr\<close>.
\<close>

definition findExisting ::
  "('a \<Rightarrow> 'k) \<Rightarrow> 'a \<Rightarrow> ('k, 'a) Internify \<Rightarrow> addr option \<times> ('k, 'a) Internify" where
  "findExisting hf v s =
     (case m_interningMap s (hashValue hf v) of
        Some n \<Rightarrow>
          (Some (node_value n),
           s\<lparr>m_interningMap := (m_interningMap s)(hashValue hf v \<mapsto> n\<lparr>refCount := refCount n + 1\<rparr>)\<rparr>)
      | None \<Rightarrow> (None, s))"

text \<open>
  The constructor \<^verbatim>\<open>InterningNode(val)\<close>: a fresh copy of the value, count 1.
\<close>

definition new_node :: "'a \<Rightarrow> ('k, 'a) Internify \<Rightarrow> InterningNode \<times> ('k, 'a) Internify" where
  "new_node v s =
     (\<lparr>node_value = next_addr s, refCount = 1\<rparr>,
      s\<lparr>heap := (heap s)(next_addr s \<mapsto> v), next_addr := Suc (next_addr s)\<rparr>)"

text \<open>
  \<^verbatim>\<open>insertNew\<close>: \<^verbatim>\<open>try_emplace(hashValue(value), node)\<close>. When the key is free the new node
  goes in; when it is taken the node built for the call is dropped again (the heap is as
  before) and the entry found gets one more reference.
\<close>

definition insertNew ::
  "('a \<Rightarrow> 'k) \<Rightarrow> 'a \<Rightarrow> ('k, 'a) Internify \<Rightarrow> addr \<times> ('k, 'a) Internify" where
  "insertNew hf v s =
     (let hashed = hashValue hf v in
      case m_interningMap s hashed of
        None \<Rightarrow>
          (let (n, s') = new_node v s
           in (node_value n, s'\<lparr>m_interningMap := (m_interningMap s')(hashed \<mapsto> n)\<rparr>))
      | Some n \<Rightarrow>
          (node_value n,
           s\<lparr>m_interningMap := (m_interningMap s)(hashed \<mapsto> n\<lparr>refCount := refCount n + 1\<rparr>)\<rparr>))"

text \<open>\<^verbatim>\<open>size\<close>: the number of keys of the table.\<close>

definition size_pool :: "('k, 'a) Internify \<Rightarrow> nat" where
  "size_pool s = card (dom (m_interningMap s))"

subsection \<open>The draft of src/internify.hpp\<close>

text \<open>\<^verbatim>\<open>internify\<close> returns a \<^verbatim>\<open>std::shared_ptr<T>\<close>.\<close>

definition internify ::
  "('a \<Rightarrow> 'k) \<Rightarrow> 'a \<Rightarrow> ('k, 'a) Internify \<Rightarrow> addr option \<times> ('k, 'a) Internify" where
  "internify hf v s =
     (case findExisting hf v s of
        (Some p, s') \<Rightarrow> (Some p, s')
      | (None, s') \<Rightarrow> (let (p, s'') = insertNew hf v s' in (Some p, s'')))"

text \<open>
  \<^verbatim>\<open>release\<close>: \<^verbatim>\<open>fetch_sub(1)\<close> returns the count before the decrement; the entry is erased
  when that was 1.
\<close>

definition release :: "('a \<Rightarrow> 'k) \<Rightarrow> 'a \<Rightarrow> ('k, 'a) Internify \<Rightarrow> ('k, 'a) Internify" where
  "release hf v s =
     (case m_interningMap s (hashValue hf v) of
        None \<Rightarrow> s
      | Some n \<Rightarrow>
          if refCount n = 1
          then s\<lparr>m_interningMap := (m_interningMap s)(hashValue hf v := None)\<rparr>
          else s\<lparr>m_interningMap := (m_interningMap s)(hashValue hf v \<mapsto> n\<lparr>refCount := refCount n - 1\<rparr>)\<rparr>)"

text \<open>
  \<^verbatim>\<open>find\<close> only reads here: it returns the stored pointer and touches no count. The state
  is returned as it was, so that the operation has the shape of the others.
\<close>

definition find_shared ::
  "('a \<Rightarrow> 'k) \<Rightarrow> 'a \<Rightarrow> ('k, 'a) Internify \<Rightarrow> addr option \<times> ('k, 'a) Internify" where
  "find_shared hf v s =
     (case m_interningMap s (hashValue hf v) of
        Some n \<Rightarrow> (Some (node_value n), s)
      | None \<Rightarrow> (None, s))"

text \<open>\<^verbatim>\<open>erase\<close>: \<^verbatim>\<open>m_interningMap.erase(hashValue(value))\<close>.\<close>

definition erase :: "('a \<Rightarrow> 'k) \<Rightarrow> 'a \<Rightarrow> ('k, 'a) Internify \<Rightarrow> ('k, 'a) Internify" where
  "erase hf v s = s\<lparr>m_interningMap := (m_interningMap s)(hashValue hf v := None)\<rparr>"

text \<open>Dereferencing a pointer: the object at its address.\<close>

definition deref :: "('k, 'a) Internify \<Rightarrow> addr option \<Rightarrow> 'a option" where
  "deref s p = (case p of None \<Rightarrow> None | Some a \<Rightarrow> heap s a)"

text \<open>Histories of calls on one pool, for the statements about reachable states.\<close>

datatype 'a call = Intern 'a | Find 'a | Release 'a | Erase 'a | Size

fun step :: "('a \<Rightarrow> 'k) \<Rightarrow> ('k, 'a) Internify \<Rightarrow> 'a call \<Rightarrow> ('k, 'a) Internify" where
  "step hf s (Intern v) = snd (internify hf v s)"
| "step hf s (Find v) = snd (find_shared hf v s)"
| "step hf s (Release v) = release hf v s"
| "step hf s (Erase v) = erase hf v s"
| "step hf s Size = s"

definition run :: "('a \<Rightarrow> 'k) \<Rightarrow> 'a call list \<Rightarrow> ('k, 'a) Internify" where
  "run hf cs = foldl (step hf) Internify_init cs"

text \<open>The number of \<^verbatim>\<open>internify\<close> calls of a history: the calls that add to a count.\<close>

fun is_intern :: "'a call \<Rightarrow> bool" where
  "is_intern (Intern v) = True"
| "is_intern c = False"

definition interns :: "'a call list \<Rightarrow> nat" where
  "interns cs = length (filter is_intern cs)"

subsection \<open>The draft of src/unnamed/part_001: InternedPtr\<close>

text \<open>
  \<^verbatim>\<open>class InternedPtr { Internify *m_owner; const T *m_ptr; }\<close>. A pool is named by a number
  (\<open>self\<close> below, for \<^verbatim>\<open>this\<close>); the operations of a handle run on the state of the pool its
  owner pointer names. Handles are compared within one pool only, since each pool state has
  an address space of its own.
\<close>

record InternedPtr =
  m_owner :: "nat option"
  m_ptr :: "addr option"

text \<open>\<^verbatim>\<open>InternedPtr(owner, ptr)\<close>, and the invalid handle \<^verbatim>\<open>InternedPtr(nullptr, nullptr)\<close>.\<close>

definition InternedPtr_new :: "nat option \<Rightarrow> addr option \<Rightarrow> InternedPtr" where
  "InternedPtr_new owner ptr = \<lparr>m_owner = owner, m_ptr = ptr\<rparr>"

definition InternedPtr_null :: InternedPtr where
  "InternedPtr_null = InternedPtr_new None None"

definition reset :: "InternedPtr \<Rightarrow> InternedPtr" where
  "reset h = h\<lparr>m_owner := None, m_ptr := None\<rparr>"

definition is_valid :: "InternedPtr \<Rightarrow> bool" where
  "is_valid h \<longleftrightarrow> m_ptr h \<noteq> None \<and> m_owner h \<noteq> None"

text \<open>\<^verbatim>\<open>operator==\<close> and \<^verbatim>\<open>operator!=\<close> compare \<^verbatim>\<open>m_ptr\<close>.\<close>

definition InternedPtr_eq :: "InternedPtr \<Rightarrow> InternedPtr \<Rightarrow> bool" where
  "InternedPtr_eq h other \<longleftrightarrow> m_ptr h = m_ptr other"

definition InternedPtr_ne :: "InternedPtr \<Rightarrow> InternedPtr \<Rightarrow> bool" where
  "InternedPtr_ne h other \<longleftrightarrow> m_ptr h \<noteq> m_ptr other"

text \<open>
  The private \<^verbatim>\<open>Internify::release\<close> of this draft. The table owns its nodes through
  \<^verbatim>\<open>std::unique_ptr\<close> and the value lies inside the node, so erasing the entry frees the
  object: its address leaves the heap.
\<close>

definition release_ip :: "('a \<Rightarrow> 'k) \<Rightarrow> 'a \<Rightarrow> ('k, 'a) Internify \<Rightarrow> ('k, 'a) Internify" where
  "release_ip hf v s =
     (case m_interningMap s (hashValue hf v) of
        None \<Rightarrow> s
      | Some n \<Rightarrow>
          if refCount n = 1
          then s\<lparr>m_interningMap := (m_interningMap s)(hashValue hf v := None),
                 heap := (heap s)(node_value n := None)\<rparr>
          else s\<lparr>m_interningMap := (m_interningMap s)(hashValue hf v \<mapsto> n\<lparr>refCount := refCount n - 1\<rparr>)\<rparr>)"

text \<open>
  \<^verbatim>\<open>InternedPtr::release\<close>: \<^verbatim>\<open>if (m_owner && m_ptr) m_owner->release(*m_ptr); reset();\<close>
  Reading \<^verbatim>\<open>*m_ptr\<close> at an address that holds no object is undefined behaviour: the result
  \<open>None\<close>. The destructor is a call of \<^verbatim>\<open>release\<close>.
\<close>

definition InternedPtr_release ::
  "('a \<Rightarrow> 'k) \<Rightarrow> InternedPtr \<Rightarrow> ('k, 'a) Internify \<Rightarrow> (InternedPtr \<times> ('k, 'a) Internify) option" where
  "InternedPtr_release hf h s =
     (if m_owner h \<noteq> None \<and> m_ptr h \<noteq> None
      then (case deref s (m_ptr h) of
              None \<Rightarrow> None
            | Some v \<Rightarrow> Some (reset h, release_ip hf v s))
      else Some (reset h, s))"

definition InternedPtr_dtor ::
  "('a \<Rightarrow> 'k) \<Rightarrow> InternedPtr \<Rightarrow> ('k, 'a) Internify \<Rightarrow> (InternedPtr \<times> ('k, 'a) Internify) option" where
  "InternedPtr_dtor hf h s = InternedPtr_release hf h s"

text \<open>
  The move constructor \<^verbatim>\<open>InternedPtr(InternedPtr &&other)\<close>: the new handle takes both
  fields and \<^verbatim>\<open>other\<close> is reset. The result is the new handle and \<^verbatim>\<open>other\<close> afterwards.
\<close>

definition InternedPtr_move :: "InternedPtr \<Rightarrow> InternedPtr \<times> InternedPtr" where
  "InternedPtr_move other = (InternedPtr_new (m_owner other) (m_ptr other), reset other)"

text \<open>
  Move assignment \<^verbatim>\<open>operator=(InternedPtr &&other)\<close>. \<open>same\<close> says whether \<^verbatim>\<open>this == &other\<close>
  (then nothing happens). Otherwise the target releases what it holds, takes both fields,
  and \<^verbatim>\<open>other\<close> is reset. The result is the target, \<^verbatim>\<open>other\<close> and the pool afterwards.
\<close>

definition InternedPtr_assign ::
  "('a \<Rightarrow> 'k) \<Rightarrow> bool \<Rightarrow> InternedPtr \<Rightarrow> InternedPtr \<Rightarrow> ('k, 'a) Internify \<Rightarrow>
   (InternedPtr \<times> InternedPtr \<times> ('k, 'a) Internify) option" where
  "InternedPtr_assign hf same h other s =
     (if same then Some (h, h, s)
      else (case InternedPtr_release hf h s of
              None \<Rightarrow> None
            | Some (h', s') \<Rightarrow>
                Some (h'\<lparr>m_owner := m_owner other, m_ptr := m_ptr other\<rparr>, reset other, s')))"

text \<open>\<^verbatim>\<open>internify\<close> and \<^verbatim>\<open>find\<close> of this draft; \<^verbatim>\<open>find\<close> counts the reference it hands out.\<close>

definition internify_ip ::
  "nat \<Rightarrow> ('a \<Rightarrow> 'k) \<Rightarrow> 'a \<Rightarrow> ('k, 'a) Internify \<Rightarrow> InternedPtr \<times> ('k, 'a) Internify" where
  "internify_ip self hf v s =
     (case findExisting hf v s of
        (Some p, s') \<Rightarrow> (InternedPtr_new (Some self) (Some p), s')
      | (None, s') \<Rightarrow> (let (p, s'') = insertNew hf v s' in (InternedPtr_new (Some self) (Some p), s'')))"

definition find_ip ::
  "nat \<Rightarrow> ('a \<Rightarrow> 'k) \<Rightarrow> 'a \<Rightarrow> ('k, 'a) Internify \<Rightarrow> InternedPtr \<times> ('k, 'a) Internify" where
  "find_ip self hf v s =
     (case m_interningMap s (hashValue hf v) of
        Some n \<Rightarrow>
          (InternedPtr_new (Some self) (Some (node_value n)),
           s\<lparr>m_interningMap := (m_interningMap s)(hashValue hf v \<mapsto> n\<lparr>refCount := refCount n + 1\<rparr>)\<rparr>)
      | None \<Rightarrow> (InternedPtr_new None None, s))"

subsection \<open>Predicates of the statements\<close>

text \<open>
  Every count in the table is at least 1 and at most \<open>b\<close>: the invariant behind the
  statement that no entry with count 0 stays in the table.
\<close>

definition counts_within :: "nat \<Rightarrow> ('k \<rightharpoonup> InterningNode) \<Rightarrow> bool" where
  "counts_within b m \<longleftrightarrow>
     (\<forall>k n. m k = Some n \<longrightarrow> 1 \<le> sint (refCount n) \<and> sint (refCount n) \<le> int b)"

text \<open>
  A history of calls on the value \<open>v\<close> never gives back more references than it took:
  in every prefix the releases are at most as many as the interns. \<open>outstanding\<close> is the
  number of references not yet given back.
\<close>

definition never_overdrawn :: "'a \<Rightarrow> 'a call list \<Rightarrow> bool" where
  "never_overdrawn v cs \<longleftrightarrow>
     (\<forall>p \<in> set (prefixes cs). count_list p (Release v) \<le> count_list p (Intern v))"

definition outstanding :: "'a \<Rightarrow> 'a call list \<Rightarrow> nat" where
  "outstanding v cs = count_list cs (Intern v) - count_list cs (Release v)"

text \<open>
  The capacity of the 32-bit count: at no point of the history are more than \<open>2 ^ 32\<close>
  references to \<open>v\<close> outstanding. (With \<open>2 ^ 32 + 1\<close> outstanding the count reads 1.)
\<close>

definition within_capacity :: "'a \<Rightarrow> 'a call list \<Rightarrow> bool" where
  "within_capacity v cs \<longleftrightarrow> (\<forall>p \<in> set (prefixes cs). outstanding v p \<le> 2 ^ 32)"

text \<open>
  The table holds nothing when no reference to \<open>v\<close> is outstanding, and otherwise exactly
  one entry, under the key of \<open>v\<close>, whose count is the number of outstanding references.
\<close>

definition tracks :: "('a \<Rightarrow> 'k) \<Rightarrow> 'a \<Rightarrow> nat \<Rightarrow> ('k \<rightharpoonup> InterningNode) \<Rightarrow> bool" where
  "tracks hf v d m \<longleftrightarrow>
     (if d = 0 then m = Map.empty
      else \<exists>a. m = [hashValue hf v \<mapsto> \<lparr>node_value = a, refCount = of_nat d\<rparr>])"

text \<open>
  The allocator invariant: every stored object lies below \<open>next_addr\<close>, and two keys never
  share an object.
\<close>

definition alloc_ok :: "('k, 'a) Internify \<Rightarrow> bool" where
  "alloc_ok s \<longleftrightarrow>
     (\<forall>k n. m_interningMap s k = Some n \<longrightarrow> node_value n < next_addr s)
     \<and> (\<forall>k k' n n'. m_interningMap s k = Some n \<and> m_interningMap s k' = Some n'
            \<and> node_value n = node_value n' \<longrightarrow> k = k')"

section \<open>Facts about the operations\<close>

subsection \<open>Signed reading of the 32-bit count\<close>

lemma sint_succ: "sint (w :: 32 word) < 2147483647 \<Longrightarrow> sint (w + 1) = sint w + 1"
  apply (simp add: sint_word_ariths)
  apply (rule signed_take_bit_int_eq_self)
  using sint_range_size[of w] apply (simp_all add: word_size)
  done

lemma sint_pred: "- 2147483648 < sint (w :: 32 word) \<Longrightarrow> sint (w - 1) = sint w - 1"
  apply (simp add: sint_word_ariths)
  apply (rule signed_take_bit_int_eq_self)
  using sint_range_size[of w] apply (simp_all add: word_size)
  done

lemma sint_one_iff: "(sint (w :: 32 word) = 1) = (w = 1)"
proof
  assume "sint w = 1"
  then have "sint w = sint (1 :: 32 word)" by simp
  then show "w = 1" by (rule signed_word_eqI)
next
  assume "w = 1" then show "sint w = 1" by simp
qed

subsection \<open>What each operation does to the table\<close>

lemma internify_miss:
  "m_interningMap s (hashValue hf v) = None \<Longrightarrow>
   internify hf v s =
     (Some (next_addr s),
      s\<lparr>heap := (heap s)(next_addr s \<mapsto> v), next_addr := Suc (next_addr s),
        m_interningMap :=
          (m_interningMap s)(hashValue hf v \<mapsto> \<lparr>node_value = next_addr s, refCount = 1\<rparr>)\<rparr>)"
  by (simp add: internify_def findExisting_def insertNew_def new_node_def)

lemma internify_hit:
  "m_interningMap s (hashValue hf v) = Some n \<Longrightarrow>
   internify hf v s =
     (Some (node_value n),
      s\<lparr>m_interningMap := (m_interningMap s)(hashValue hf v \<mapsto> n\<lparr>refCount := refCount n + 1\<rparr>)\<rparr>)"
  by (simp add: internify_def findExisting_def)

lemma map_internify:
  "m_interningMap (snd (internify hf v s)) =
     (case m_interningMap s (hashValue hf v) of
        None \<Rightarrow> (m_interningMap s)(hashValue hf v \<mapsto> \<lparr>node_value = next_addr s, refCount = 1\<rparr>)
      | Some n \<Rightarrow> (m_interningMap s)(hashValue hf v \<mapsto> n\<lparr>refCount := refCount n + 1\<rparr>))"
  by (simp add: internify_miss internify_hit split: option.split)

lemma map_release:
  "m_interningMap (release hf v s) =
     (case m_interningMap s (hashValue hf v) of
        None \<Rightarrow> m_interningMap s
      | Some n \<Rightarrow>
          if refCount n = 1 then (m_interningMap s)(hashValue hf v := None)
          else (m_interningMap s)(hashValue hf v \<mapsto> n\<lparr>refCount := refCount n - 1\<rparr>))"
  by (simp add: release_def split: option.split)

lemma snd_find_shared: "snd (find_shared hf v s) = s"
  by (simp add: find_shared_def split: option.split)

lemma map_erase:
  "m_interningMap (erase hf v s) = (m_interningMap s)(hashValue hf v := None)"
  by (simp add: erase_def)

lemma run_snoc: "run hf (cs @ [c]) = step hf (run hf cs) c"
  by (simp add: run_def)

subsection \<open>The counts stay between 1 and the number of calls\<close>

lemma counts_withinD:
  "counts_within b m \<Longrightarrow> m k = Some n \<Longrightarrow> 1 \<le> sint (refCount n) \<and> sint (refCount n) \<le> int b"
  by (simp add: counts_within_def)

lemma counts_within_upd:
  assumes "counts_within b m" "1 \<le> sint (refCount n)" "sint (refCount n) \<le> int b"
  shows "counts_within b (m(k \<mapsto> n))"
  unfolding counts_within_def
proof (intro allI impI)
  fix k' n'
  assume h: "(m(k \<mapsto> n)) k' = Some n'"
  show "1 \<le> sint (refCount n') \<and> sint (refCount n') \<le> int b"
  proof (cases "k' = k")
    case True
    with h assms show ?thesis by simp
  next
    case False
    with h have "m k' = Some n'" by simp
    from counts_withinD[OF assms(1) this] show ?thesis by simp
  qed
qed

lemma counts_within_del:
  assumes "counts_within b m"
  shows "counts_within b (m(k := None))"
  unfolding counts_within_def
proof (intro allI impI)
  fix k' n'
  assume "(m(k := None)) k' = Some n'"
  then have "m k' = Some n'" by (simp split: if_splits)
  from counts_withinD[OF assms this] show "1 \<le> sint (refCount n') \<and> sint (refCount n') \<le> int b"
    by simp
qed

lemma counts_within_Suc: "counts_within b m \<Longrightarrow> counts_within (Suc b) m"
  by (fastforce simp: counts_within_def)

lemma counts_within_internify:
  assumes "counts_within b (m_interningMap s)" "b < 2147483647"
  shows "counts_within (Suc b) (m_interningMap (snd (internify hf v s)))"
proof (cases "m_interningMap s (hashValue hf v)")
  case None
  with assms(1) show ?thesis
    by (simp add: map_internify counts_within_upd counts_within_Suc)
next
  case (Some n)
  from counts_withinD[OF assms(1) Some]
  have n: "1 \<le> sint (refCount n)" "sint (refCount n) \<le> int b" by simp_all
  with assms(2) have "sint (refCount n + 1) = sint (refCount n) + 1"
    by (intro sint_succ) simp
  with n have "counts_within (Suc b)
     ((m_interningMap s)(hashValue hf v \<mapsto> n\<lparr>refCount := refCount n + 1\<rparr>))"
    by (intro counts_within_upd counts_within_Suc assms) simp_all
  with Some show ?thesis by (simp add: map_internify)
qed

lemma counts_within_release:
  assumes "counts_within b (m_interningMap s)"
  shows "counts_within b (m_interningMap (release hf v s))"
proof (cases "m_interningMap s (hashValue hf v)")
  case None
  with assms show ?thesis by (simp add: map_release)
next
  case (Some n)
  from counts_withinD[OF assms Some]
  have n: "1 \<le> sint (refCount n)" "sint (refCount n) \<le> int b" by simp_all
  show ?thesis
  proof (cases "refCount n = 1")
    case True
    with assms Some show ?thesis by (simp add: map_release counts_within_del)
  next
    case False
    then have "sint (refCount n) \<noteq> 1" by (simp add: sint_one_iff)
    moreover from n have "sint (refCount n - 1) = sint (refCount n) - 1"
      by (intro sint_pred) simp
    ultimately have "counts_within b
       ((m_interningMap s)(hashValue hf v \<mapsto> n\<lparr>refCount := refCount n - 1\<rparr>))"
      using n by (intro counts_within_upd assms) simp_all
    with Some False show ?thesis by (simp add: map_release)
  qed
qed

lemma counts_within_other:
  assumes "counts_within b (m_interningMap s)" "\<not> is_intern c"
  shows "counts_within b (m_interningMap (step hf s c))"
  using assms
  by (cases c) (simp_all add: snd_find_shared counts_within_release map_erase counts_within_del)

lemma interns_snoc:
  "interns (cs @ [c]) = (if is_intern c then Suc (interns cs) else interns cs)"
  by (simp add: interns_def)

lemma counts_within_run:
  "interns cs < 2147483648 \<Longrightarrow> counts_within (interns cs) (m_interningMap (run hf cs))"
proof (induction cs rule: rev_induct)
  case Nil
  show ?case by (simp add: counts_within_def run_def Internify_init_def)
next
  case (snoc c cs)
  show ?case
  proof (cases "is_intern c")
    case True
    then obtain v where c: "c = Intern v" by (cases c) simp_all
    with snoc have "counts_within (interns cs) (m_interningMap (run hf cs))"
      "interns cs < 2147483647"
      by (simp_all add: interns_snoc)
    then have "counts_within (Suc (interns cs)) (m_interningMap (snd (internify hf v (run hf cs))))"
      by (rule counts_within_internify)
    with c show ?thesis by (simp add: run_snoc interns_snoc)
  next
    case False
    with snoc have "counts_within (interns cs) (m_interningMap (run hf cs))"
      by (simp add: interns_snoc)
    then have "counts_within (interns cs) (m_interningMap (step hf (run hf cs) c))"
      using False by (rule counts_within_other)
    with False show ?thesis by (simp only: run_snoc interns_snoc if_False)
  qed
qed

lemma run_interns:
  "m_interningMap (run hf (replicate (Suc n) (Intern v))) =
     [hashValue hf v \<mapsto> \<lparr>node_value = 0, refCount = of_nat (Suc n)\<rparr>]"
proof (induction n)
  case 0
  show ?case by (simp add: run_def map_internify Internify_init_def)
next
  case (Suc n)
  have "replicate (Suc (Suc n)) (Intern v) = replicate (Suc n) (Intern v) @ [Intern v]"
    by (simp add: replicate_append_same)
  then have "run hf (replicate (Suc (Suc n)) (Intern v)) =
      step hf (run hf (replicate (Suc n) (Intern v))) (Intern v)"
    by (simp only: run_snoc)
  with Suc show ?case by (auto simp add: map_internify fun_eq_iff)
qed

subsection \<open>Release, case by case\<close>

lemma release_absent:
  "m_interningMap s (hashValue hf v) = None \<Longrightarrow> release hf v s = s"
  by (simp add: release_def)

lemma release_last:
  "m_interningMap s (hashValue hf v) = Some n \<Longrightarrow> refCount n = 1 \<Longrightarrow>
   release hf v s = s\<lparr>m_interningMap := (m_interningMap s)(hashValue hf v := None)\<rparr>"
  by (simp add: release_def)

lemma release_shared:
  "m_interningMap s (hashValue hf v) = Some n \<Longrightarrow> refCount n \<noteq> 1 \<Longrightarrow>
   release hf v s =
     s\<lparr>m_interningMap := (m_interningMap s)(hashValue hf v \<mapsto> n\<lparr>refCount := refCount n - 1\<rparr>)\<rparr>"
  by (simp add: release_def)

subsection \<open>Histories of one value\<close>

lemma never_overdrawn_snoc:
  "never_overdrawn v (cs @ [c]) \<longleftrightarrow>
     never_overdrawn v cs \<and> count_list (cs @ [c]) (Release v) \<le> count_list (cs @ [c]) (Intern v)"
  by (auto simp: never_overdrawn_def)

lemma never_overdrawn_whole:
  "never_overdrawn v cs \<Longrightarrow> count_list cs (Release v) \<le> count_list cs (Intern v)"
  by (simp add: never_overdrawn_def)

lemma within_capacity_snoc:
  "within_capacity v (cs @ [c]) \<longleftrightarrow>
     within_capacity v cs \<and> outstanding v (cs @ [c]) \<le> 2 ^ 32"
  by (auto simp: within_capacity_def)

lemma within_capacity_whole: "within_capacity v cs \<Longrightarrow> outstanding v cs \<le> 2 ^ 32"
  by (simp add: within_capacity_def)

lemma never_overdrawn_interns_only: "set cs \<subseteq> {Intern v} \<Longrightarrow> never_overdrawn v cs"
  unfolding never_overdrawn_def
proof
  fix p
  assume "set cs \<subseteq> {Intern v}" and "p \<in> set (prefixes cs)"
  then have "set p \<subseteq> {Intern v}" by (auto dest: set_mono_prefix)
  then have "Release v \<notin> set p" by auto
  then show "count_list p (Release v) \<le> count_list p (Intern v)" by simp
qed

lemma word_of_nat_eq_1: "d \<le> 2 ^ 32 \<Longrightarrow> (of_nat d :: 32 word) = 1 \<longleftrightarrow> d = 1"
proof (cases "d = 2 ^ 32")
  case True
  then show ?thesis by simp
next
  case False
  assume "d \<le> 2 ^ 32"
  with False have d: "d < 2 ^ 32" by simp
  show ?thesis
  proof
    assume "(of_nat d :: 32 word) = 1"
    then have "unat (of_nat d :: 32 word) = unat (1 :: 32 word)" by simp
    with d show "d = 1" by (simp add: unat_of_nat take_bit_nat_eq_self)
  qed simp
qed

lemma tracks_SucI:
  "m = [hashValue hf v \<mapsto> \<lparr>node_value = a, refCount = of_nat (Suc d)\<rparr>] \<Longrightarrow>
   tracks hf v (Suc d) m"
proof -
  assume "m = [hashValue hf v \<mapsto> \<lparr>node_value = a, refCount = of_nat (Suc d)\<rparr>]"
  then have "\<exists>a'. m = [hashValue hf v \<mapsto> \<lparr>node_value = a', refCount = of_nat (Suc d)\<rparr>]"
    by (rule exI)
  then show ?thesis unfolding tracks_def by (simp only: nat.simps if_False)
qed

lemma tracks_intern:
  assumes "tracks hf v d (m_interningMap s)"
  shows "tracks hf v (Suc d) (m_interningMap (snd (internify hf v s)))"
proof (cases "d = 0")
  case True
  with assms have "m_interningMap s = Map.empty" by (simp add: tracks_def)
  then have "m_interningMap (snd (internify hf v s)) =
      [hashValue hf v \<mapsto> \<lparr>node_value = next_addr s, refCount = of_nat (Suc d)\<rparr>]"
    using True by (simp add: map_internify)
  then show ?thesis by (rule tracks_SucI)
next
  case False
  with assms obtain a where
    "m_interningMap s = [hashValue hf v \<mapsto> \<lparr>node_value = a, refCount = of_nat d\<rparr>]"
    by (auto simp: tracks_def)
  then have "m_interningMap (snd (internify hf v s)) =
      [hashValue hf v \<mapsto> \<lparr>node_value = a, refCount = of_nat (Suc d)\<rparr>]"
    by (simp add: map_internify add.commute)
  then show ?thesis by (rule tracks_SucI)
qed

lemma tracks_release:
  assumes "tracks hf v (Suc d) (m_interningMap s)" "Suc d \<le> 2 ^ 32"
  shows "tracks hf v d (m_interningMap (release hf v s))"
proof -
  from assms(1) obtain a where
    m: "m_interningMap s = [hashValue hf v \<mapsto> \<lparr>node_value = a, refCount = of_nat (Suc d)\<rparr>]"
    by (auto simp: tracks_def)
  have "(of_nat (Suc d) :: 32 word) = 1 \<longleftrightarrow> d = 0"
    using word_of_nat_eq_1[OF assms(2)] by simp
  with m show ?thesis
    by (auto simp: tracks_def map_release fun_eq_iff)
qed

lemma table_of_history:
  assumes "set cs \<subseteq> {Intern v, Release v}" "never_overdrawn v cs" "within_capacity v cs"
  shows "tracks hf v (outstanding v cs) (m_interningMap (run hf cs))"
  using assms
proof (induction cs rule: rev_induct)
  case Nil
  show ?case by (simp add: tracks_def outstanding_def run_def Internify_init_def)
next
  case (snoc c cs)
  then have ih: "tracks hf v (outstanding v cs) (m_interningMap (run hf cs))"
    and bal: "count_list (cs @ [c]) (Release v) \<le> count_list (cs @ [c]) (Intern v)"
    and c: "c = Intern v \<or> c = Release v"
    and cap: "within_capacity v cs"
    by (auto simp: never_overdrawn_snoc within_capacity_snoc)
  from c show ?case
  proof
    assume ci: "c = Intern v"
    then have "outstanding v (cs @ [c]) = Suc (outstanding v cs)"
      using never_overdrawn_whole[of v cs] snoc.prems(2)
      by (simp add: outstanding_def never_overdrawn_snoc)
    with ih ci show ?thesis by (simp add: run_snoc tracks_intern)
  next
    assume cr: "c = Release v"
    with bal have "outstanding v cs = Suc (outstanding v (cs @ [c]))"
      by (auto simp: outstanding_def)
    moreover from cap have "outstanding v cs \<le> 2 ^ 32" by (rule within_capacity_whole)
    ultimately show ?thesis using ih cr tracks_release[of hf v "outstanding v (cs @ [c])" "run hf cs"]
      by (simp add: run_snoc)
  qed
qed

subsection \<open>The InternedPtr draft\<close>

lemma internify_ip_hit:
  "m_interningMap s (hashValue hf v) = Some n \<Longrightarrow>
   internify_ip self hf v s =
     (InternedPtr_new (Some self) (Some (node_value n)),
      s\<lparr>m_interningMap := (m_interningMap s)(hashValue hf v \<mapsto> n\<lparr>refCount := refCount n + 1\<rparr>)\<rparr>)"
  by (simp add: internify_ip_def findExisting_def)

lemma internify_ip_miss:
  "m_interningMap s (hashValue hf v) = None \<Longrightarrow>
   internify_ip self hf v s =
     (InternedPtr_new (Some self) (Some (next_addr s)),
      s\<lparr>heap := (heap s)(next_addr s \<mapsto> v), next_addr := Suc (next_addr s),
        m_interningMap :=
          (m_interningMap s)(hashValue hf v \<mapsto> \<lparr>node_value = next_addr s, refCount = 1\<rparr>)\<rparr>)"
  by (simp add: internify_ip_def findExisting_def insertNew_def new_node_def)

lemma release_reset: "InternedPtr_release hf (reset h) s = Some (reset h, s)"
  by (simp add: InternedPtr_release_def reset_def)

lemma reset_null: "reset h = InternedPtr_null"
  by (simp add: reset_def InternedPtr_null_def InternedPtr_new_def)

lemma release_valid:
  "is_valid h \<Longrightarrow> deref s (m_ptr h) = Some v \<Longrightarrow>
   InternedPtr_release hf h s = Some (InternedPtr_null, release_ip hf v s)"
  by (simp add: InternedPtr_release_def is_valid_def reset_null)

lemma release_invalid:
  "\<not> is_valid h \<Longrightarrow> InternedPtr_release hf h s = Some (InternedPtr_null, s)"
  by (auto simp: InternedPtr_release_def is_valid_def reset_null)

lemma null_invalid: "\<not> is_valid InternedPtr_null"
  by (simp add: is_valid_def InternedPtr_null_def InternedPtr_new_def)

text \<open>
  Two handles for one value share one entry; the entry, and its object, go when the second
  handle is destroyed.
\<close>

lemma two_handles_disposed:
  "size_pool (snd (internify_ip 7 length ''leaktest''
      (snd (internify_ip 7 length ''leaktest'' Internify_init)))) = 1
   \<and> (case InternedPtr_dtor length (fst (internify_ip 7 length ''leaktest'' Internify_init))
            (snd (internify_ip 7 length ''leaktest''
              (snd (internify_ip 7 length ''leaktest'' Internify_init)))) of
         None \<Rightarrow> False
       | Some (h1, s1) \<Rightarrow>
           size_pool s1 = 1
           \<and> (case InternedPtr_dtor length
                    (fst (internify_ip 7 length ''leaktest''
                      (snd (internify_ip 7 length ''leaktest'' Internify_init)))) s1 of
                 None \<Rightarrow> False
               | Some (h2, s2) \<Rightarrow> size_pool s2 = 0 \<and> heap s2 = Map.empty))"
  by (simp add: internify_ip_def findExisting_def insertNew_def new_node_def Internify_init_def
      hashValue_def InternedPtr_new_def InternedPtr_dtor_def InternedPtr_release_def deref_def
      release_ip_def reset_def size_pool_def)

subsection \<open>Intern and erase, case by case\<close>

lemma internify_returns_value:
  assumes "m_interningMap s (hashValue hf v) = None
           \<or> (\<exists>n. m_interningMap s (hashValue hf v) = Some n \<and> heap s (node_value n) = Some v)"
  shows "deref (snd (internify hf v s)) (fst (internify hf v s)) = Some v"
  using assms by (auto simp: internify_miss internify_hit deref_def)

lemma erase_absent:
  "m_interningMap s (hashValue hf v) = None \<Longrightarrow> erase hf v s = s"
  by (simp add: erase_def fun_upd_idem)

lemma erase_removes:
  "m_interningMap (erase hf v s) (hashValue hf v) = None
   \<and> find_shared hf v (erase hf v s) = (None, erase hf v s)
   \<and> (\<forall>k. k \<noteq> hashValue hf v \<longrightarrow> m_interningMap (erase hf v s) k = m_interningMap s k)
   \<and> heap (erase hf v s) = heap s"
  by (simp add: erase_def find_shared_def)

lemma size_erase_present:
  "finite (dom (m_interningMap s)) \<Longrightarrow> m_interningMap s (hashValue hf v) = Some n \<Longrightarrow>
   size_pool (erase hf v s) = size_pool s - 1"
  by (simp add: size_pool_def erase_def domI)

subsection \<open>Which handles are equal\<close>

text \<open>
  Two calls of \<^verbatim>\<open>internify\<close> in a row return the same pointer exactly when the two values
  have the same hash: the table is keyed by the hash alone. Only for an injective hash is
  that the same as the values being equal, and no function from strings to 64-bit words is
  injective.
\<close>

lemma alloc_ok_init: "alloc_ok Internify_init"
  by (simp add: alloc_ok_def Internify_init_def)

lemma alloc_okD1: "alloc_ok s \<Longrightarrow> m_interningMap s k = Some n \<Longrightarrow> node_value n < next_addr s"
  by (auto simp: alloc_ok_def)

lemma alloc_okD2:
  "alloc_ok s \<Longrightarrow> m_interningMap s k = Some n \<Longrightarrow> m_interningMap s k' = Some n' \<Longrightarrow>
   node_value n = node_value n' \<Longrightarrow> k = k'"
  unfolding alloc_ok_def by blast

lemma alloc_ok_count:
  assumes "alloc_ok s" "m_interningMap s k = Some n"
  shows "alloc_ok (s\<lparr>m_interningMap := (m_interningMap s)(k \<mapsto> n\<lparr>refCount := c\<rparr>)\<rparr>)"
  unfolding alloc_ok_def
proof (intro conjI allI impI)
  fix k' n'
  assume "m_interningMap (s\<lparr>m_interningMap := (m_interningMap s)(k \<mapsto> n\<lparr>refCount := c\<rparr>)\<rparr>) k' = Some n'"
  then show "node_value n' < next_addr (s\<lparr>m_interningMap := (m_interningMap s)(k \<mapsto> n\<lparr>refCount := c\<rparr>)\<rparr>)"
    using assms by (auto dest: alloc_okD1 split: if_splits)
next
  fix k1 k2 n1 n2
  assume "m_interningMap (s\<lparr>m_interningMap := (m_interningMap s)(k \<mapsto> n\<lparr>refCount := c\<rparr>)\<rparr>) k1 = Some n1
      \<and> m_interningMap (s\<lparr>m_interningMap := (m_interningMap s)(k \<mapsto> n\<lparr>refCount := c\<rparr>)\<rparr>) k2 = Some n2
      \<and> node_value n1 = node_value n2"
  then show "k1 = k2"
    using assms by (auto dest: alloc_okD2 split: if_splits)
qed

lemma alloc_ok_del:
  assumes "alloc_ok s"
  shows "alloc_ok (s\<lparr>m_interningMap := (m_interningMap s)(k := None)\<rparr>)"
  using assms unfolding alloc_ok_def
  by (auto split: if_splits)

lemma alloc_ok_new:
  assumes "alloc_ok s" "m_interningMap s k = None"
  shows "alloc_ok (s\<lparr>heap := h, next_addr := Suc (next_addr s),
           m_interningMap := (m_interningMap s)(k \<mapsto> \<lparr>node_value = next_addr s, refCount = c\<rparr>)\<rparr>)"
  unfolding alloc_ok_def
proof (intro conjI allI impI)
  fix k' n'
  assume "m_interningMap (s\<lparr>heap := h, next_addr := Suc (next_addr s),
           m_interningMap := (m_interningMap s)(k \<mapsto> \<lparr>node_value = next_addr s, refCount = c\<rparr>)\<rparr>) k' = Some n'"
  then show "node_value n' < next_addr (s\<lparr>heap := h, next_addr := Suc (next_addr s),
           m_interningMap := (m_interningMap s)(k \<mapsto> \<lparr>node_value = next_addr s, refCount = c\<rparr>)\<rparr>)"
    using assms(1) by (auto dest: alloc_okD1 simp: less_Suc_eq split: if_splits)
next
  fix k1 k2 n1 n2
  assume "m_interningMap (s\<lparr>heap := h, next_addr := Suc (next_addr s),
           m_interningMap := (m_interningMap s)(k \<mapsto> \<lparr>node_value = next_addr s, refCount = c\<rparr>)\<rparr>) k1 = Some n1
      \<and> m_interningMap (s\<lparr>heap := h, next_addr := Suc (next_addr s),
           m_interningMap := (m_interningMap s)(k \<mapsto> \<lparr>node_value = next_addr s, refCount = c\<rparr>)\<rparr>) k2 = Some n2
      \<and> node_value n1 = node_value n2"
  then show "k1 = k2"
    using assms(1) by (auto dest: alloc_okD1 alloc_okD2 split: if_splits)
qed

lemma alloc_ok_internify: "alloc_ok s \<Longrightarrow> alloc_ok (snd (internify hf v s))"
  by (cases "m_interningMap s (hashValue hf v)")
     (simp_all add: internify_miss internify_hit alloc_ok_new alloc_ok_count)

lemma alloc_ok_release: "alloc_ok s \<Longrightarrow> alloc_ok (release hf v s)"
  by (cases "m_interningMap s (hashValue hf v)")
     (simp_all add: release_def alloc_ok_del alloc_ok_count)

lemma alloc_ok_erase: "alloc_ok s \<Longrightarrow> alloc_ok (erase hf v s)"
  by (simp add: erase_def alloc_ok_del)

lemma alloc_ok_step: "alloc_ok s \<Longrightarrow> alloc_ok (step hf s c)"
  by (cases c) (simp_all add: alloc_ok_internify alloc_ok_release alloc_ok_erase snd_find_shared)

lemma alloc_ok_run: "alloc_ok (run hf cs)"
  by (induction cs rule: rev_induct) (simp_all add: run_snoc alloc_ok_step, simp add: run_def alloc_ok_init)

lemma same_handle_iff_same_key:
  assumes "alloc_ok s"
  shows "fst (internify hf x s) = fst (internify hf y (snd (internify hf x s)))
         \<longleftrightarrow> hashValue hf x = hashValue hf y"
proof (cases "m_interningMap s (hashValue hf x)")
  case None
  note nx = None
  show ?thesis
  proof (cases "hashValue hf y = hashValue hf x")
    case True
    with nx show ?thesis by (simp add: internify_miss internify_hit)
  next
    case False
    show ?thesis
    proof (cases "m_interningMap s (hashValue hf y)")
      case None
      with nx False show ?thesis by (simp add: internify_miss)
    next
      case (Some n)
      from alloc_okD1[OF assms Some] have "node_value n \<noteq> next_addr s" by simp
      with nx False Some show ?thesis by (auto simp add: internify_miss internify_hit)
    qed
  qed
next
  case (Some n)
  note sx = Some
  from alloc_okD1[OF assms sx] have lt: "node_value n < next_addr s" .
  show ?thesis
  proof (cases "hashValue hf y = hashValue hf x")
    case True
    with sx show ?thesis by (simp add: internify_hit)
  next
    case False
    show ?thesis
    proof (cases "m_interningMap s (hashValue hf y)")
      case None
      with sx False lt show ?thesis by (auto simp add: internify_miss internify_hit)
    next
      case (Some n')
      from alloc_okD2[OF assms sx Some] False have "node_value n \<noteq> node_value n'" by auto
      with sx False Some show ?thesis by (auto simp add: internify_hit)
    qed
  qed
qed

lemma same_handle_iff_equal_when_injective:
  "alloc_ok s \<Longrightarrow> inj hf \<Longrightarrow>
   fst (internify hf x s) = fst (internify hf y (snd (internify hf x s))) \<longleftrightarrow> x = y"
  by (simp add: same_handle_iff_same_key hashValue_def inj_eq)

lemma string_hash_collides:
  fixes hf :: "string \<Rightarrow> 64 word"
  shows "\<exists>x y. x \<noteq> y \<and> hashValue hf x = hashValue hf y"
proof -
  have "\<not> inj hf"
  proof
    assume "inj hf"
    then have "finite (UNIV :: string set)"
      by (rule finite_imageD[rotated]) simp
    then show False by (simp add: infinite_UNIV_listI)
  qed
  then show ?thesis by (auto simp: inj_def hashValue_def)
qed

subsection \<open>A count that wrapped\<close>

text \<open>
  After \<open>2 ^ 32 + 1\<close> calls of \<^verbatim>\<open>internify\<close> on one value the 32-bit count reads 1 again,
  and a single \<^verbatim>\<open>release\<close> erases the entry.
\<close>

lemma count_list_replicate:
  "count_list (replicate n x) y = (if x = y then n else 0)"
  by (induction n) auto

lemma release_after_wrap:
  "m_interningMap (run length (replicate (Suc 4294967296) (Intern ''a'') @ [Release ''a''])) = Map.empty
   \<and> count_list (replicate (Suc 4294967296) (Intern ''a'') @ [Release ''a'']) (Intern ''a'')
       = Suc 4294967296
   \<and> count_list (replicate (Suc 4294967296) (Intern ''a'') @ [Release ''a'']) (Release ''a'') = 1"
proof -
  have "m_interningMap (run length (replicate (Suc 4294967296) (Intern ''a'') @ [Release ''a'']))
      = Map.empty"
    unfolding run_snoc step.simps map_release run_interns by simp
  then show ?thesis
    by (simp only: count_list_append count_list_replicate count_list.simps) simp
qed

lemma never_overdrawn_wrap:
  "never_overdrawn ''a'' (replicate (Suc 4294967296) (Intern ''a'') @ [Release ''a''])"
proof -
  have "never_overdrawn ''a'' (replicate (Suc 4294967296) (Intern ''a''))"
    by (rule never_overdrawn_interns_only) (simp only: set_replicate_conv_if, simp)
  moreover have "count_list (replicate (Suc 4294967296) (Intern ''a'') @ [Release ''a'']) (Release ''a'')
      \<le> count_list (replicate (Suc 4294967296) (Intern ''a'') @ [Release ''a'']) (Intern ''a'')"
    by (simp only: count_list_append count_list_replicate count_list.simps) simp
  ultimately show ?thesis by (simp only: never_overdrawn_snoc)
qed

section \<open>The claims\<close>

text \<open>
  C1, at a failing input. With the hash \<^verbatim>\<open>length\<close>, the unequal strings \<^verbatim>\<open>"ab"\<close> and \<^verbatim>\<open>"cd"\<close>
  have one key. Interned one after the other into the empty pool they get the same pointer
  (in both drafts: equal handles), and the pool holds one entry, not two.
\<close>

theorem colliding_values_share_handle:
  "''ab'' \<noteq> ''cd''
   \<and> hashValue length ''ab'' = hashValue length ''cd''
   \<and> fst (internify length ''ab'' Internify_init) = Some 0
   \<and> fst (internify length ''cd'' (snd (internify length ''ab'' Internify_init))) = Some 0
   \<and> size_pool (snd (internify length ''cd'' (snd (internify length ''ab'' Internify_init)))) = 1
   \<and> InternedPtr_eq (fst (internify_ip 7 length ''ab'' Internify_init))
        (fst (internify_ip 7 length ''cd'' (snd (internify_ip 7 length ''ab'' Internify_init))))"
  by (simp add: internify_def internify_ip_def findExisting_def insertNew_def new_node_def
      Internify_init_def hashValue_def size_pool_def InternedPtr_eq_def InternedPtr_new_def)

text \<open>
  C2 (as amended). In every state that a history of \<^verbatim>\<open>internify\<close>, \<^verbatim>\<open>find\<close>, \<^verbatim>\<open>release\<close>,
  \<^verbatim>\<open>erase\<close> and \<^verbatim>\<open>size\<close> calls with fewer than \<open>2 ^ 31\<close> calls of \<^verbatim>\<open>internify\<close> reaches from
  the empty pool, every entry of the table has a count of at least 1; and a \<^verbatim>\<open>release\<close>
  whose decrement gives 0 erases the entry in that same call.
\<close>

theorem refcount_positive:
  assumes "interns cs < 2 ^ 31"
  shows "(\<forall>k n. m_interningMap (run hf cs) k = Some n \<longrightarrow> 1 \<le> sint (refCount n))
       \<and> (\<forall>v n. m_interningMap (run hf cs) (hashValue hf v) = Some n \<and> refCount n - 1 = 0 \<longrightarrow>
             m_interningMap (release hf v (run hf cs)) (hashValue hf v) = None)"
proof -
  from assms have "counts_within (interns cs) (m_interningMap (run hf cs))"
    by (intro counts_within_run) simp
  then have pos: "\<forall>k n. m_interningMap (run hf cs) k = Some n \<longrightarrow> 1 \<le> sint (refCount n)"
    by (simp add: counts_within_def)
  have rel: "\<forall>v n. m_interningMap (run hf cs) (hashValue hf v) = Some n \<and> refCount n - 1 = 0 \<longrightarrow>
      m_interningMap (release hf v (run hf cs)) (hashValue hf v) = None"
    by (simp add: map_release)
  from pos rel show ?thesis by blast
qed

theorem refcount_positive_witness:
  "interns [Intern ''a'', Intern ''a'', Release ''a'', Find ''a'', Size] < 2 ^ 31
   \<and> m_interningMap (run length [Intern ''a'', Intern ''a'', Release ''a'', Find ''a'', Size]) 1
       = Some \<lparr>node_value = 0, refCount = 1\<rparr>
   \<and> 1 \<le> sint (refCount \<lparr>node_value = 0, refCount = 1\<rparr>)
   \<and> refCount \<lparr>node_value = 0, refCount = 1\<rparr> - 1 = 0
   \<and> m_interningMap
        (release length ''a'' (run length [Intern ''a'', Intern ''a'', Release ''a'', Find ''a'', Size])) 1
       = None"
proof -
  let ?cs = "[Intern ''a'', Intern ''a'', Release ''a'', Find ''a'', Size]"
  let ?n = "\<lparr>node_value = 0, refCount = 1\<rparr>"
  have a: "interns ?cs < 2 ^ 31" by (simp add: interns_def)
  have b: "m_interningMap (run length ?cs) 1 = Some ?n"
    by (simp add: run_def Internify_init_def map_internify map_release snd_find_shared hashValue_def)
  note t = refcount_positive[OF a, of length]
  from t b have p: "1 \<le> sint (refCount ?n)" by blast
  have k: "hashValue length ''a'' = 1" by (simp add: hashValue_def)
  from t have "m_interningMap (run length ?cs) (hashValue length ''a'') = Some ?n \<and> refCount ?n - 1 = 0
      \<longrightarrow> m_interningMap (release length ''a'' (run length ?cs)) (hashValue length ''a'') = None"
    by blast
  with b have r: "m_interningMap (release length ''a'' (run length ?cs)) 1 = None"
    by (simp add: k)
  from a b p r show ?thesis by simp
qed

text \<open>
  C2 as stated fails once the 32-bit count wraps: after \<open>2 ^ 31\<close> calls of \<^verbatim>\<open>internify\<close> on
  one value the entry is in the table with the count \<open>- 2 ^ 31\<close>.
\<close>

theorem refcount_overflow:
  "m_interningMap (run length (replicate (2 ^ 31) (Intern ''a''))) 1 =
     Some \<lparr>node_value = 0, refCount = - 2147483648\<rparr>
   \<and> sint (refCount \<lparr>node_value = 0, refCount = - 2147483648\<rparr>) = - 2147483648"
proof -
  have e: "(2 ^ 31 :: nat) = Suc 2147483647" by simp
  have "m_interningMap (run length (replicate (Suc 2147483647) (Intern ''a''))) 1 =
     Some \<lparr>node_value = 0, refCount = - 2147483648\<rparr>"
    unfolding run_interns by (simp add: hashValue_def)
  then show ?thesis unfolding e by simp
qed

text \<open>
  C3, at a failing input. \<^verbatim>\<open>internify("cd")\<close> on the pool that holds \<^verbatim>\<open>"ab"\<close> under the same
  key returns the storage of \<^verbatim>\<open>"ab"\<close>: the handle points to a value that is not the argument,
  no entry and no object is created, and the count of the entry of \<^verbatim>\<open>"ab"\<close> goes to 2.
\<close>

theorem intern_returns_colliding_value:
  "deref (snd (internify length ''cd'' (snd (internify length ''ab'' Internify_init))))
      (fst (internify length ''cd'' (snd (internify length ''ab'' Internify_init)))) = Some ''ab''
   \<and> m_interningMap (snd (internify length ''cd'' (snd (internify length ''ab'' Internify_init))))
      = [2 \<mapsto> \<lparr>node_value = 0, refCount = 2\<rparr>]
   \<and> heap (snd (internify length ''cd'' (snd (internify length ''ab'' Internify_init))))
      = [0 \<mapsto> ''ab'']"
  by (simp add: internify_def findExisting_def insertNew_def new_node_def
      Internify_init_def hashValue_def deref_def numeral_2_eq_2)

text \<open>
  C4 (as amended). Take a history of \<^verbatim>\<open>internify\<close> and \<^verbatim>\<open>release\<close> calls on one value \<open>v\<close>,
  from the empty pool, in which no prefix has more releases than interns and no prefix
  leaves more than \<open>2 ^ 32\<close> references outstanding. Then the table has an entry for \<open>v\<close>
  exactly when the interns outnumber the releases, and \<^verbatim>\<open>size()\<close> is 1 then and 0 otherwise.
\<close>

theorem size_counts_outstanding:
  assumes "set cs \<subseteq> {Intern v, Release v}" "never_overdrawn v cs" "within_capacity v cs"
  shows "(m_interningMap (run hf cs) (hashValue hf v) \<noteq> None)
           = (count_list cs (Release v) < count_list cs (Intern v))
       \<and> size_pool (run hf cs) = (if count_list cs (Release v) < count_list cs (Intern v) then 1 else 0)"
  using table_of_history[OF assms, of hf]
  by (auto simp: tracks_def outstanding_def size_pool_def split: if_splits)

theorem size_counts_outstanding_witness:
  "set [Intern ''leaktest'', Intern ''leaktest''] \<subseteq> {Intern ''leaktest'', Release ''leaktest''}
   \<and> never_overdrawn ''leaktest'' [Intern ''leaktest'', Intern ''leaktest'']
   \<and> within_capacity ''leaktest'' [Intern ''leaktest'', Intern ''leaktest'']
   \<and> size_pool (run length [Intern ''leaktest'', Intern ''leaktest'']) = 1
   \<and> set [Intern ''leaktest'', Intern ''leaktest'', Release ''leaktest'', Release ''leaktest'']
        \<subseteq> {Intern ''leaktest'', Release ''leaktest''}
   \<and> never_overdrawn ''leaktest''
        [Intern ''leaktest'', Intern ''leaktest'', Release ''leaktest'', Release ''leaktest'']
   \<and> within_capacity ''leaktest''
        [Intern ''leaktest'', Intern ''leaktest'', Release ''leaktest'', Release ''leaktest'']
   \<and> size_pool (run length
        [Intern ''leaktest'', Intern ''leaktest'', Release ''leaktest'', Release ''leaktest'']) = 0"
proof -
  let ?v = "''leaktest''"
  have a1: "set [Intern ?v, Intern ?v] \<subseteq> {Intern ?v, Release ?v}" by simp
  have a2: "never_overdrawn ?v [Intern ?v, Intern ?v]" by (simp add: never_overdrawn_def)
  have a3: "within_capacity ?v [Intern ?v, Intern ?v]"
    by (simp add: within_capacity_def outstanding_def)
  have b1: "set [Intern ?v, Intern ?v, Release ?v, Release ?v] \<subseteq> {Intern ?v, Release ?v}" by simp
  have b2: "never_overdrawn ?v [Intern ?v, Intern ?v, Release ?v, Release ?v]"
    by (simp add: never_overdrawn_def)
  have b3: "within_capacity ?v [Intern ?v, Intern ?v, Release ?v, Release ?v]"
    by (simp add: within_capacity_def outstanding_def)
  show ?thesis
    using a1 a2 a3 b1 b2 b3 size_counts_outstanding[OF a1 a2 a3, of length]
      size_counts_outstanding[OF b1 b2 b3, of length]
    by simp
qed

text \<open>
  C4 as stated fails at two histories. One releases before it interns: \<^verbatim>\<open>release\<close> of an
  absent value is a no-op, so after one release and one intern the value is counted although
  the interns do not outnumber the releases. The other never releases more than it
  interned, but has \<open>2 ^ 32 + 1\<close> references outstanding: the 32-bit count then reads 1, one
  release erases the entry, and the value is not counted although \<open>2 ^ 32 + 1\<close> interns
  stand against one release.
\<close>

theorem history_miscounted:
  "size_pool (run length [Release ''leaktest'', Intern ''leaktest'']) = 1
   \<and> count_list [Release ''leaktest'', Intern ''leaktest''] (Intern ''leaktest'') = 1
   \<and> count_list [Release ''leaktest'', Intern ''leaktest''] (Release ''leaktest'') = 1
   \<and> never_overdrawn ''a'' (replicate (Suc 4294967296) (Intern ''a'') @ [Release ''a''])
   \<and> size_pool (run length (replicate (Suc 4294967296) (Intern ''a'') @ [Release ''a''])) = 0
   \<and> count_list (replicate (Suc 4294967296) (Intern ''a'') @ [Release ''a'']) (Intern ''a'')
       = Suc 4294967296
   \<and> count_list (replicate (Suc 4294967296) (Intern ''a'') @ [Release ''a'']) (Release ''a'') = 1"
proof -
  have first: "size_pool (run length [Release ''leaktest'', Intern ''leaktest'']) = 1
      \<and> count_list [Release ''leaktest'', Intern ''leaktest''] (Intern ''leaktest'') = 1
      \<and> count_list [Release ''leaktest'', Intern ''leaktest''] (Release ''leaktest'') = 1"
    by (simp add: size_pool_def run_def map_internify map_release Internify_init_def)
  from release_after_wrap
  have "size_pool (run length (replicate (Suc 4294967296) (Intern ''a'') @ [Release ''a''])) = 0"
    by (simp only: size_pool_def) simp
  with first never_overdrawn_wrap release_after_wrap show ?thesis by blast
qed

text \<open>
  C5, at a failing input. The pool holds one entry, for \<^verbatim>\<open>"ab"\<close>; no entry holds \<^verbatim>\<open>"cd"\<close>.
  \<^verbatim>\<open>release("cd")\<close> is not a no-op: it takes the count of the entry of \<^verbatim>\<open>"ab"\<close> to 0 and
  erases it.
\<close>

theorem release_hits_colliding_value:
  "m_interningMap (snd (internify length ''ab'' Internify_init))
      = [2 \<mapsto> \<lparr>node_value = 0, refCount = 1\<rparr>]
   \<and> heap (snd (internify length ''ab'' Internify_init)) = [0 \<mapsto> ''ab'']
   \<and> m_interningMap (release length ''cd'' (snd (internify length ''ab'' Internify_init))) = Map.empty
   \<and> size_pool (release length ''cd'' (snd (internify length ''ab'' Internify_init))) = 0"
  by (simp add: internify_def findExisting_def insertNew_def new_node_def release_def
      Internify_init_def hashValue_def size_pool_def numeral_2_eq_2)

text \<open>
  C6 (as amended). \<^verbatim>\<open>find(v)\<close> never inserts: in both drafts the keys of the table, the
  stored objects and the allocator are as before. When no entry is stored under the key of
  \<open>v\<close>, it returns none (\<^verbatim>\<open>nullptr\<close>, the invalid handle) and the pool is unchanged. When the
  entry under the key of \<open>v\<close> holds \<open>v\<close>, it returns that entry's storage, the storage
  \<^verbatim>\<open>internify(v)\<close> returns; the \<^verbatim>\<open>InternedPtr\<close> draft adds one to the count of that entry, and
  does in all what \<^verbatim>\<open>internify(v)\<close> does, while the draft of \<^verbatim>\<open>src/internify.hpp\<close> leaves the
  pool unchanged.
\<close>

theorem find_hit_and_miss:
  "(m_interningMap s (hashValue hf v) = None \<longrightarrow>
      find_shared hf v s = (None, s) \<and> find_ip self hf v s = (InternedPtr_null, s))
   \<and> (\<forall>n. m_interningMap s (hashValue hf v) = Some n \<and> heap s (node_value n) = Some v \<longrightarrow>
         find_shared hf v s = (Some (node_value n), s)
       \<and> fst (find_shared hf v s) = fst (internify hf v s)
       \<and> deref s (fst (find_shared hf v s)) = Some v
       \<and> find_ip self hf v s =
           (InternedPtr_new (Some self) (Some (node_value n)),
            s\<lparr>m_interningMap :=
                (m_interningMap s)(hashValue hf v \<mapsto> n\<lparr>refCount := refCount n + 1\<rparr>)\<rparr>)
       \<and> find_ip self hf v s = internify_ip self hf v s
       \<and> deref s (m_ptr (fst (find_ip self hf v s))) = Some v)
   \<and> dom (m_interningMap (snd (find_shared hf v s))) = dom (m_interningMap s)
   \<and> dom (m_interningMap (snd (find_ip self hf v s))) = dom (m_interningMap s)
   \<and> heap (snd (find_shared hf v s)) = heap s \<and> next_addr (snd (find_shared hf v s)) = next_addr s
   \<and> heap (snd (find_ip self hf v s)) = heap s \<and> next_addr (snd (find_ip self hf v s)) = next_addr s"
proof -
  have miss: "m_interningMap s (hashValue hf v) = None \<longrightarrow>
      find_shared hf v s = (None, s) \<and> find_ip self hf v s = (InternedPtr_null, s)"
    by (simp add: find_shared_def find_ip_def InternedPtr_null_def)
  have hit: "\<forall>n. m_interningMap s (hashValue hf v) = Some n \<and> heap s (node_value n) = Some v \<longrightarrow>
         find_shared hf v s = (Some (node_value n), s)
       \<and> fst (find_shared hf v s) = fst (internify hf v s)
       \<and> deref s (fst (find_shared hf v s)) = Some v
       \<and> find_ip self hf v s =
           (InternedPtr_new (Some self) (Some (node_value n)),
            s\<lparr>m_interningMap :=
                (m_interningMap s)(hashValue hf v \<mapsto> n\<lparr>refCount := refCount n + 1\<rparr>)\<rparr>)
       \<and> find_ip self hf v s = internify_ip self hf v s
       \<and> deref s (m_ptr (fst (find_ip self hf v s))) = Some v"
    by (simp add: find_shared_def find_ip_def internify_hit internify_ip_hit deref_def
        InternedPtr_new_def)
  have doms: "dom (m_interningMap (snd (find_shared hf v s))) = dom (m_interningMap s)"
    "dom (m_interningMap (snd (find_ip self hf v s))) = dom (m_interningMap s)"
    by (auto simp: find_shared_def find_ip_def split: option.splits)
  have frame: "heap (snd (find_shared hf v s)) = heap s"
    "next_addr (snd (find_shared hf v s)) = next_addr s"
    "heap (snd (find_ip self hf v s)) = heap s"
    "next_addr (snd (find_ip self hf v s)) = next_addr s"
    by (simp_all add: find_shared_def find_ip_def split: option.splits)
  from miss hit doms frame show ?thesis by blast
qed

theorem find_hit_and_miss_witness:
  "m_interningMap (snd (internify length ''ab'' Internify_init)) (hashValue length ''ab'')
     = Some \<lparr>node_value = 0, refCount = 1\<rparr>
   \<and> heap (snd (internify length ''ab'' Internify_init)) (node_value \<lparr>node_value = 0, refCount = 1\<rparr>)
     = Some ''ab''
   \<and> find_shared length ''ab'' (snd (internify length ''ab'' Internify_init))
     = (Some 0, snd (internify length ''ab'' Internify_init))
   \<and> find_ip 7 length ''ab'' (snd (internify length ''ab'' Internify_init))
     = internify_ip 7 length ''ab'' (snd (internify length ''ab'' Internify_init))
   \<and> m_interningMap (Internify_init :: (nat, string) Internify) (hashValue length ''cd'') = None
   \<and> find_shared length ''cd'' Internify_init = (None, Internify_init)
   \<and> find_ip 7 length ''cd'' Internify_init = (InternedPtr_null, Internify_init)"
proof -
  let ?s = "snd (internify length ''ab'' (Internify_init :: (nat, string) Internify))"
  let ?n = "\<lparr>node_value = 0, refCount = 1\<rparr>"
  have a: "m_interningMap ?s (hashValue length ''ab'') = Some ?n"
    by (simp add: internify_def findExisting_def insertNew_def new_node_def Internify_init_def)
  have b: "heap ?s (node_value ?n) = Some ''ab''"
    by (simp add: internify_def findExisting_def insertNew_def new_node_def Internify_init_def)
  have c: "m_interningMap (Internify_init :: (nat, string) Internify) (hashValue length ''cd'') = None"
    by (simp add: Internify_init_def)
  note hit = find_hit_and_miss[of ?s length "''ab''" 7]
  note miss = find_hit_and_miss[of "Internify_init :: (nat, string) Internify" length "''cd''" 7]
  from hit a b have h1: "find_shared length ''ab'' ?s = (Some (node_value ?n), ?s)"
    and h2: "find_ip 7 length ''ab'' ?s = internify_ip 7 length ''ab'' ?s"
    by blast+
  from miss c have m1: "find_shared length ''cd'' (Internify_init :: (nat, string) Internify) = (None, Internify_init)"
    and m2: "find_ip 7 length ''cd'' (Internify_init :: (nat, string) Internify) = (InternedPtr_null, Internify_init)"
    by blast+
  from a b c h1 h2 m1 m2 show ?thesis by simp
qed

text \<open>
  C6 as stated fails in the draft of \<^verbatim>\<open>src/internify.hpp\<close>: on a hit its \<^verbatim>\<open>find\<close> returns the
  stored pointer and the count stays 1, where \<^verbatim>\<open>internify\<close> takes it to 2.
\<close>

theorem find_shared_leaves_count:
  "find_shared length ''ab'' (snd (internify length ''ab'' Internify_init))
     = (Some 0, snd (internify length ''ab'' Internify_init))
   \<and> m_interningMap (snd (internify length ''ab'' Internify_init)) 2
     = Some \<lparr>node_value = 0, refCount = 1\<rparr>
   \<and> m_interningMap
       (snd (find_shared length ''ab'' (snd (internify length ''ab'' Internify_init)))) 2
     = Some \<lparr>node_value = 0, refCount = 1\<rparr>
   \<and> m_interningMap
       (snd (internify length ''ab'' (snd (internify length ''ab'' Internify_init)))) 2
     = Some \<lparr>node_value = 0, refCount = 2\<rparr>"
  by (simp add: find_shared_def internify_def findExisting_def insertNew_def new_node_def
      Internify_init_def hashValue_def numeral_2_eq_2)

text \<open>
  C7, at a failing input. The pool holds one entry, for \<^verbatim>\<open>"ab"\<close>; no entry holds \<^verbatim>\<open>"cd"\<close>.
  \<^verbatim>\<open>erase("cd")\<close> is not a no-op: it erases the entry of \<^verbatim>\<open>"ab"\<close>, after which \<^verbatim>\<open>find("ab")\<close>
  returns none.
\<close>

theorem erase_hits_colliding_value:
  "m_interningMap (snd (internify length ''ab'' Internify_init))
      = [2 \<mapsto> \<lparr>node_value = 0, refCount = 1\<rparr>]
   \<and> heap (snd (internify length ''ab'' Internify_init)) = [0 \<mapsto> ''ab'']
   \<and> size_pool (snd (internify length ''ab'' Internify_init)) = 1
   \<and> m_interningMap (erase length ''cd'' (snd (internify length ''ab'' Internify_init))) = Map.empty
   \<and> size_pool (erase length ''cd'' (snd (internify length ''ab'' Internify_init))) = 0
   \<and> fst (find_shared length ''ab'' (erase length ''cd'' (snd (internify length ''ab'' Internify_init))))
      = None"
  by (simp add: internify_def findExisting_def insertNew_def new_node_def erase_def
      find_shared_def Internify_init_def hashValue_def size_pool_def numeral_2_eq_2)

text \<open>
  C8. A handle releases once. Disposing a valid handle whose object is live, by an explicit
  \<^verbatim>\<open>release\<close> or by the destructor, is one call of the pool's \<^verbatim>\<open>release\<close> on the value it
  points to, and leaves the handle invalid; disposing it again, by either, leaves the pool
  as it is, and so does disposing any invalid handle. The move constructor hands both
  fields to the new handle and leaves the source invalid: the destructor of the new handle
  is the one release, that of the source leaves the pool as it is. Move assignment from
  another handle releases what the target held, once, hands the fields of the source to the
  target and leaves the source invalid; assigning a handle to itself does nothing.
\<close>

theorem InternedPtr_releases_once:
  "(is_valid h \<and> deref s (m_ptr h) = Some v \<longrightarrow>
      InternedPtr_release hf h s = Some (InternedPtr_null, release_ip hf v s)
      \<and> InternedPtr_dtor hf h s = Some (InternedPtr_null, release_ip hf v s)
      \<and> InternedPtr_release hf InternedPtr_null (release_ip hf v s)
           = Some (InternedPtr_null, release_ip hf v s)
      \<and> InternedPtr_dtor hf InternedPtr_null (release_ip hf v s)
           = Some (InternedPtr_null, release_ip hf v s)
      \<and> is_valid (fst (InternedPtr_move h))
      \<and> InternedPtr_dtor hf (fst (InternedPtr_move h)) s = Some (InternedPtr_null, release_ip hf v s)
      \<and> InternedPtr_assign hf False h other s =
           Some (InternedPtr_new (m_owner other) (m_ptr other), InternedPtr_null, release_ip hf v s))
   \<and> (\<not> is_valid h \<longrightarrow>
        InternedPtr_release hf h s = Some (InternedPtr_null, s)
        \<and> InternedPtr_dtor hf h s = Some (InternedPtr_null, s)
        \<and> InternedPtr_assign hf False h other s =
             Some (InternedPtr_new (m_owner other) (m_ptr other), InternedPtr_null, s))
   \<and> \<not> is_valid InternedPtr_null
   \<and> reset h = InternedPtr_null
   \<and> InternedPtr_move h = (InternedPtr_new (m_owner h) (m_ptr h), InternedPtr_null)
   \<and> m_owner (InternedPtr_new (m_owner h) (m_ptr h)) = m_owner h
   \<and> m_ptr (InternedPtr_new (m_owner h) (m_ptr h)) = m_ptr h
   \<and> InternedPtr_assign hf True h h s = Some (h, h, s)
   \<and> (\<forall>h1 s1. InternedPtr_release hf h s = Some (h1, s1) \<longrightarrow>
         \<not> is_valid h1 \<and> InternedPtr_release hf h1 s1 = Some (h1, s1)
         \<and> InternedPtr_dtor hf h1 s1 = Some (h1, s1))
   \<and> (\<forall>h' other' s'. InternedPtr_assign hf False h other s = Some (h', other', s') \<longrightarrow>
         InternedPtr_release hf h s = Some (reset h, s')
         \<and> m_owner h' = m_owner other \<and> m_ptr h' = m_ptr other
         \<and> \<not> is_valid other'
         \<and> InternedPtr_dtor hf other' s' = Some (other', s'))"
proof -
  have null_rel: "\<And>s'. InternedPtr_release hf InternedPtr_null s' = Some (InternedPtr_null, s')"
    using release_invalid[OF null_invalid] .
  have valid: "is_valid h \<and> deref s (m_ptr h) = Some v \<longrightarrow>
      InternedPtr_release hf h s = Some (InternedPtr_null, release_ip hf v s)
      \<and> InternedPtr_dtor hf h s = Some (InternedPtr_null, release_ip hf v s)
      \<and> InternedPtr_release hf InternedPtr_null (release_ip hf v s)
           = Some (InternedPtr_null, release_ip hf v s)
      \<and> InternedPtr_dtor hf InternedPtr_null (release_ip hf v s)
           = Some (InternedPtr_null, release_ip hf v s)
      \<and> is_valid (fst (InternedPtr_move h))
      \<and> InternedPtr_dtor hf (fst (InternedPtr_move h)) s = Some (InternedPtr_null, release_ip hf v s)
      \<and> InternedPtr_assign hf False h other s =
           Some (InternedPtr_new (m_owner other) (m_ptr other), InternedPtr_null, release_ip hf v s)"
  proof (intro impI)
    assume a: "is_valid h \<and> deref s (m_ptr h) = Some v"
    then have r: "InternedPtr_release hf h s = Some (InternedPtr_null, release_ip hf v s)"
      by (simp add: release_valid)
    from a have mv: "is_valid (fst (InternedPtr_move h))"
      "deref s (m_ptr (fst (InternedPtr_move h))) = Some v"
      by (simp_all add: InternedPtr_move_def InternedPtr_new_def is_valid_def)
    have asg: "InternedPtr_assign hf False h other s =
        Some (InternedPtr_new (m_owner other) (m_ptr other), InternedPtr_null, release_ip hf v s)"
      by (simp add: InternedPtr_assign_def r reset_null InternedPtr_null_def InternedPtr_new_def)
    from r mv asg show "InternedPtr_release hf h s = Some (InternedPtr_null, release_ip hf v s)
      \<and> InternedPtr_dtor hf h s = Some (InternedPtr_null, release_ip hf v s)
      \<and> InternedPtr_release hf InternedPtr_null (release_ip hf v s)
           = Some (InternedPtr_null, release_ip hf v s)
      \<and> InternedPtr_dtor hf InternedPtr_null (release_ip hf v s)
           = Some (InternedPtr_null, release_ip hf v s)
      \<and> is_valid (fst (InternedPtr_move h))
      \<and> InternedPtr_dtor hf (fst (InternedPtr_move h)) s = Some (InternedPtr_null, release_ip hf v s)
      \<and> InternedPtr_assign hf False h other s =
           Some (InternedPtr_new (m_owner other) (m_ptr other), InternedPtr_null, release_ip hf v s)"
      by (simp add: InternedPtr_dtor_def null_rel release_valid)
  qed
  have invalid: "\<not> is_valid h \<longrightarrow>
        InternedPtr_release hf h s = Some (InternedPtr_null, s)
        \<and> InternedPtr_dtor hf h s = Some (InternedPtr_null, s)
        \<and> InternedPtr_assign hf False h other s =
             Some (InternedPtr_new (m_owner other) (m_ptr other), InternedPtr_null, s)"
    by (simp add: InternedPtr_dtor_def release_invalid InternedPtr_assign_def reset_null
        InternedPtr_null_def InternedPtr_new_def)
  have basics: "\<not> is_valid InternedPtr_null" "reset h = InternedPtr_null"
    "InternedPtr_move h = (InternedPtr_new (m_owner h) (m_ptr h), InternedPtr_null)"
    "m_owner (InternedPtr_new (m_owner h) (m_ptr h)) = m_owner h"
    "m_ptr (InternedPtr_new (m_owner h) (m_ptr h)) = m_ptr h"
    "InternedPtr_assign hf True h h s = Some (h, h, s)"
    by (simp_all add: null_invalid reset_null InternedPtr_move_def InternedPtr_new_def
        InternedPtr_assign_def)
  have again: "\<forall>h1 s1. InternedPtr_release hf h s = Some (h1, s1) \<longrightarrow>
         \<not> is_valid h1 \<and> InternedPtr_release hf h1 s1 = Some (h1, s1)
         \<and> InternedPtr_dtor hf h1 s1 = Some (h1, s1)"
    by (auto simp: InternedPtr_release_def InternedPtr_dtor_def is_valid_def reset_def
        split: if_splits option.splits)
  have assign: "\<forall>h' other' s'. InternedPtr_assign hf False h other s = Some (h', other', s') \<longrightarrow>
         InternedPtr_release hf h s = Some (reset h, s')
         \<and> m_owner h' = m_owner other \<and> m_ptr h' = m_ptr other
         \<and> \<not> is_valid other'
         \<and> InternedPtr_dtor hf other' s' = Some (other', s')"
    by (auto simp: InternedPtr_assign_def InternedPtr_release_def InternedPtr_dtor_def
        is_valid_def reset_def split: if_splits option.splits)
  from valid invalid basics again assign show ?thesis by blast
qed

theorem InternedPtr_releases_once_witness:
  "snd (internify_ip 7 length ''xyz'' (snd (internify_ip 7 length ''ab'' Internify_init)))
     = \<lparr>m_interningMap = [2 \<mapsto> \<lparr>node_value = 0, refCount = 1\<rparr>, 3 \<mapsto> \<lparr>node_value = 1, refCount = 1\<rparr>],
        heap = [0 \<mapsto> ''ab'', 1 \<mapsto> ''xyz''], next_addr = 2\<rparr>
   \<and> fst (internify_ip 7 length ''ab'' Internify_init) = \<lparr>m_owner = Some 7, m_ptr = Some 0\<rparr>
   \<and> fst (internify_ip 7 length ''xyz'' (snd (internify_ip 7 length ''ab'' Internify_init)))
     = \<lparr>m_owner = Some 7, m_ptr = Some 1\<rparr>
   \<and> is_valid \<lparr>m_owner = Some 7, m_ptr = Some 0\<rparr>
   \<and> deref \<lparr>m_interningMap = [2 :: nat \<mapsto> \<lparr>node_value = 0, refCount = 1\<rparr>, 3 \<mapsto> \<lparr>node_value = 1, refCount = 1\<rparr>],
        heap = [0 \<mapsto> ''ab'', 1 \<mapsto> ''xyz''], next_addr = 2\<rparr>
        (m_ptr \<lparr>m_owner = Some 7, m_ptr = Some 0\<rparr>) = Some ''ab''
   \<and> InternedPtr_dtor length \<lparr>m_owner = Some 7, m_ptr = Some 0\<rparr>
        \<lparr>m_interningMap = [2 \<mapsto> \<lparr>node_value = 0, refCount = 1\<rparr>, 3 \<mapsto> \<lparr>node_value = 1, refCount = 1\<rparr>],
         heap = [0 \<mapsto> ''ab'', 1 \<mapsto> ''xyz''], next_addr = 2\<rparr>
       = Some (InternedPtr_null,
           release_ip length ''ab''
             \<lparr>m_interningMap = [2 \<mapsto> \<lparr>node_value = 0, refCount = 1\<rparr>, 3 \<mapsto> \<lparr>node_value = 1, refCount = 1\<rparr>],
              heap = [0 \<mapsto> ''ab'', 1 \<mapsto> ''xyz''], next_addr = 2\<rparr>)
   \<and> InternedPtr_dtor length InternedPtr_null
        (release_ip length ''ab''
             \<lparr>m_interningMap = [2 \<mapsto> \<lparr>node_value = 0, refCount = 1\<rparr>, 3 \<mapsto> \<lparr>node_value = 1, refCount = 1\<rparr>],
              heap = [0 \<mapsto> ''ab'', 1 \<mapsto> ''xyz''], next_addr = 2\<rparr>)
       = Some (InternedPtr_null,
           release_ip length ''ab''
             \<lparr>m_interningMap = [2 \<mapsto> \<lparr>node_value = 0, refCount = 1\<rparr>, 3 \<mapsto> \<lparr>node_value = 1, refCount = 1\<rparr>],
              heap = [0 \<mapsto> ''ab'', 1 \<mapsto> ''xyz''], next_addr = 2\<rparr>)
   \<and> InternedPtr_assign length False \<lparr>m_owner = Some 7, m_ptr = Some 0\<rparr>
        \<lparr>m_owner = Some 7, m_ptr = Some 1\<rparr>
        \<lparr>m_interningMap = [2 \<mapsto> \<lparr>node_value = 0, refCount = 1\<rparr>, 3 \<mapsto> \<lparr>node_value = 1, refCount = 1\<rparr>],
         heap = [0 \<mapsto> ''ab'', 1 \<mapsto> ''xyz''], next_addr = 2\<rparr>
       = Some (\<lparr>m_owner = Some 7, m_ptr = Some 1\<rparr>, InternedPtr_null,
           release_ip length ''ab''
             \<lparr>m_interningMap = [2 \<mapsto> \<lparr>node_value = 0, refCount = 1\<rparr>, 3 \<mapsto> \<lparr>node_value = 1, refCount = 1\<rparr>],
              heap = [0 \<mapsto> ''ab'', 1 \<mapsto> ''xyz''], next_addr = 2\<rparr>)
   \<and> m_interningMap (release_ip length ''ab''
             \<lparr>m_interningMap = [2 \<mapsto> \<lparr>node_value = 0, refCount = 1\<rparr>, 3 \<mapsto> \<lparr>node_value = 1, refCount = 1\<rparr>],
              heap = [0 \<mapsto> ''ab'', 1 \<mapsto> ''xyz''], next_addr = 2\<rparr>) 2 = None
   \<and> m_interningMap (release_ip length ''ab''
             \<lparr>m_interningMap = [2 \<mapsto> \<lparr>node_value = 0, refCount = 1\<rparr>, 3 \<mapsto> \<lparr>node_value = 1, refCount = 1\<rparr>],
              heap = [0 \<mapsto> ''ab'', 1 \<mapsto> ''xyz''], next_addr = 2\<rparr>) 3
       = Some \<lparr>node_value = 1, refCount = 1\<rparr>
   \<and> \<not> is_valid InternedPtr_null
   \<and> InternedPtr_dtor length InternedPtr_null
        \<lparr>m_interningMap = [2 \<mapsto> \<lparr>node_value = 0, refCount = 1\<rparr>, 3 \<mapsto> \<lparr>node_value = 1, refCount = 1\<rparr>],
         heap = [0 \<mapsto> ''ab'', 1 \<mapsto> ''xyz''], next_addr = 2\<rparr>
       = Some (InternedPtr_null,
           \<lparr>m_interningMap = [2 \<mapsto> \<lparr>node_value = 0, refCount = 1\<rparr>, 3 \<mapsto> \<lparr>node_value = 1, refCount = 1\<rparr>],
            heap = [0 \<mapsto> ''ab'', 1 \<mapsto> ''xyz''], next_addr = 2\<rparr>)"
proof -
  let ?ha = "\<lparr>m_owner = Some 7, m_ptr = Some 0\<rparr>"
  let ?hx = "\<lparr>m_owner = Some 7, m_ptr = Some 1\<rparr>"
  let ?s = "\<lparr>m_interningMap = [2 \<mapsto> \<lparr>node_value = 0, refCount = 1\<rparr>, 3 \<mapsto> \<lparr>node_value = 1, refCount = 1\<rparr>],
             heap = [0 \<mapsto> ''ab'', 1 \<mapsto> ''xyz''], next_addr = 2\<rparr> :: (nat, string) Internify"
  have reach: "snd (internify_ip 7 length ''xyz'' (snd (internify_ip 7 length ''ab'' Internify_init))) = ?s"
    "fst (internify_ip 7 length ''ab'' Internify_init) = ?ha"
    "fst (internify_ip 7 length ''xyz'' (snd (internify_ip 7 length ''ab'' Internify_init))) = ?hx"
    by (simp_all add: internify_ip_def findExisting_def insertNew_def new_node_def
        Internify_init_def hashValue_def InternedPtr_new_def numeral_2_eq_2 numeral_3_eq_3)
  have v: "is_valid ?ha" by (simp add: is_valid_def)
  have d: "deref ?s (m_ptr ?ha) = Some ''ab''" by (simp add: deref_def)
  have nv: "\<not> is_valid InternedPtr_null"
    by (simp add: is_valid_def InternedPtr_null_def InternedPtr_new_def)
  have new: "InternedPtr_new (m_owner ?hx) (m_ptr ?hx) = ?hx" by (simp add: InternedPtr_new_def)
  note valid = InternedPtr_releases_once[of ?ha ?s "''ab''" length ?hx]
  note null = InternedPtr_releases_once[of InternedPtr_null ?s "''ab''" length ?hx]
  from valid v d have dt: "InternedPtr_dtor length ?ha ?s = Some (InternedPtr_null, release_ip length ''ab'' ?s)"
    and dt2: "InternedPtr_dtor length InternedPtr_null (release_ip length ''ab'' ?s)
         = Some (InternedPtr_null, release_ip length ''ab'' ?s)"
    and asg: "InternedPtr_assign length False ?ha ?hx ?s
         = Some (InternedPtr_new (m_owner ?hx) (m_ptr ?hx), InternedPtr_null, release_ip length ''ab'' ?s)"
    by blast+
  from null nv have dn: "InternedPtr_dtor length InternedPtr_null ?s = Some (InternedPtr_null, ?s)"
    by blast
  have m2: "m_interningMap (release_ip length ''ab'' ?s) 2 = None"
    and m3: "m_interningMap (release_ip length ''ab'' ?s) 3 = Some \<lparr>node_value = 1, refCount = 1\<rparr>"
    by (simp_all add: release_ip_def hashValue_def)
  from reach v d dt dt2 asg[unfolded new] m2 m3 nv dn show ?thesis
    by (intro conjI)
qed

text \<open>
  C9. Two handles are equal under \<^verbatim>\<open>operator==\<close> exactly when they hold the same address,
  \<^verbatim>\<open>operator!=\<close> is the negation, and neither looks at the owner (nor, taking no pool
  state, at the objects pointed to). So the handles \<^verbatim>\<open>find\<close> returns for two values are
  equal exactly when the two lookups end at the same stored object, or both at none.
\<close>

theorem InternedPtr_eq_identity:
  "InternedPtr_eq h1 h2 = (m_ptr h1 = m_ptr h2)
   \<and> InternedPtr_ne h1 h2 = (\<not> InternedPtr_eq h1 h2)
   \<and> InternedPtr_eq (h1\<lparr>m_owner := o1\<rparr>) (h2\<lparr>m_owner := o2\<rparr>) = InternedPtr_eq h1 h2
   \<and> InternedPtr_eq (fst (find_ip self hf x s)) (fst (find_ip self hf y s))
       = (map_option node_value (m_interningMap s (hashValue hf x))
          = map_option node_value (m_interningMap s (hashValue hf y)))"
  by (simp add: InternedPtr_eq_def InternedPtr_ne_def find_ip_def InternedPtr_new_def
      split: option.splits)

text \<open>
  C10. When the entry under the key of \<open>v\<close> holds \<open>v\<close> and has a count of at least 2,
  \<^verbatim>\<open>release(v)\<close> changes the count of that entry by exactly one and nothing else: the keys,
  the other entries, the stored objects and \<^verbatim>\<open>size()\<close> are as before.
\<close>

theorem release_keeps_shared_entry:
  assumes "m_interningMap s (hashValue hf v) = Some n"
    and "heap s (node_value n) = Some v"
    and "2 \<le> sint (refCount n)"
  shows "release hf v s =
           s\<lparr>m_interningMap := (m_interningMap s)(hashValue hf v \<mapsto> n\<lparr>refCount := refCount n - 1\<rparr>)\<rparr>
       \<and> sint (refCount (n\<lparr>refCount := refCount n - 1\<rparr>)) = sint (refCount n) - 1
       \<and> node_value (n\<lparr>refCount := refCount n - 1\<rparr>) = node_value n
       \<and> dom (m_interningMap (release hf v s)) = dom (m_interningMap s)
       \<and> (\<forall>k. k \<noteq> hashValue hf v \<longrightarrow> m_interningMap (release hf v s) k = m_interningMap s k)
       \<and> heap (release hf v s) = heap s
       \<and> next_addr (release hf v s) = next_addr s
       \<and> size_pool (release hf v s) = size_pool s"
proof -
  from assms(3) have ne: "refCount n \<noteq> 1" by auto
  have r: "release hf v s =
      s\<lparr>m_interningMap := (m_interningMap s)(hashValue hf v \<mapsto> n\<lparr>refCount := refCount n - 1\<rparr>)\<rparr>"
    using assms(1) ne by (rule release_shared)
  have d: "sint (refCount n - 1) = sint (refCount n) - 1"
    using assms(3) by (intro sint_pred) simp
  have dm: "dom (m_interningMap (release hf v s)) = dom (m_interningMap s)"
    using assms(1) by (simp add: r insert_absorb domI)
  show ?thesis
    using d dm by (simp add: r size_pool_def)
qed

theorem release_keeps_shared_entry_witness:
  "m_interningMap (run length [Intern ''ab'', Intern ''ab'']) (hashValue length ''ab'')
      = Some \<lparr>node_value = 0, refCount = 2\<rparr>
   \<and> heap (run length [Intern ''ab'', Intern ''ab'']) (node_value \<lparr>node_value = 0, refCount = 2\<rparr>)
      = Some ''ab''
   \<and> 2 \<le> sint (refCount \<lparr>node_value = 0, refCount = 2\<rparr>)
   \<and> m_interningMap (release length ''ab'' (run length [Intern ''ab'', Intern ''ab''])) 2
      = Some \<lparr>node_value = 0, refCount = 1\<rparr>
   \<and> size_pool (release length ''ab'' (run length [Intern ''ab'', Intern ''ab''])) = 1"
proof -
  let ?s = "run length [Intern ''ab'', Intern ''ab'']"
  let ?n = "\<lparr>node_value = 0, refCount = 2\<rparr>"
  have s: "?s = \<lparr>m_interningMap = [2 \<mapsto> ?n], heap = [0 \<mapsto> ''ab''], next_addr = 1\<rparr>"
    by (simp add: run_def Internify_init_def internify_def findExisting_def insertNew_def
        new_node_def hashValue_def numeral_2_eq_2)
  have a: "m_interningMap ?s (hashValue length ''ab'') = Some ?n"
    by (simp add: s hashValue_def)
  have b: "heap ?s (node_value ?n) = Some ''ab''" by (simp add: s)
  have c: "2 \<le> sint (refCount ?n)" by simp
  have z: "size_pool ?s = 1" by (simp add: s size_pool_def)
  note t = release_keeps_shared_entry[OF a b c]
  from t have r: "release length ''ab'' ?s =
      ?s\<lparr>m_interningMap := (m_interningMap ?s)(hashValue length ''ab'' \<mapsto> ?n\<lparr>refCount := refCount ?n - 1\<rparr>)\<rparr>"
    by (rule conjunct1)
  from t have z': "size_pool (release length ''ab'' ?s) = size_pool ?s"
    by blast
  have m: "m_interningMap (release length ''ab'' ?s) 2 = Some \<lparr>node_value = 0, refCount = 1\<rparr>"
    unfolding r by (simp add: hashValue_def)
  from a b c m z z' show ?thesis by simp
qed

end
